theory Spec2Isabelle
  imports Main "HOL-Library.Word" "HOL-Library.Signed_Division" "HOL-Library.Monad_Syntax"
begin

unbundle bit_operations_syntax

section \<open>The console driver (Examples/os/x86_64/vga.c)\<close>

subsection \<open>Machine integers\<close>

text \<open>
  The C types of the driver: \<open>int\<close> is 32 bits and \<open>int64_t\<close> 64 bits on x86-64, both two's
  complement. Arithmetic on them is word arithmetic, comparisons are the signed ones
  (\<open><s\<close>, \<open>\<le>s\<close>), and \<open>sint\<close> reads the mathematical value. Where a signed operation
  overflows (undefined in ISO C) the model has the result of the machine instruction, which
  wraps modulo \<open>2^32\<close> or \<open>2^64\<close>.
\<close>

type_synonym c_int = "32 word"
type_synonym int64_t = "64 word"
type_synonym uint16_t = "16 word"
type_synonym uint8_t = "8 word"

text \<open>C's \<open>/\<close> and \<open>%\<close> on \<open>int64_t\<close> truncate towards zero.\<close>

definition c_div :: "int64_t \<Rightarrow> int64_t \<Rightarrow> int64_t" where
  "c_div a b = word_of_int (sint a sdiv sint b)"

definition c_mod :: "int64_t \<Rightarrow> int64_t \<Rightarrow> int64_t" where
  "c_mod a b = word_of_int (sint a smod sint b)"

subsection \<open>State\<close>

text \<open>
  The file-level variables of vga.c. \<open>VGA\<close> is the memory seen through the pointer
  \<open>(uint16_t*)0xB8000\<close>, as a store from cell offsets (in units of \<open>uint16_t\<close>, relative to
  the base; any integer, so that an access outside the grid is representable) to cell values.
\<close>

record console =
  VGA :: "int \<Rightarrow> uint16_t"
  row :: c_int
  col :: c_int
  color :: uint8_t

definition WIDTH :: c_int where
  "WIDTH = 80"

definition HEIGHT :: c_int where
  "HEIGHT = 25"

text \<open>The statics as the loader leaves them: \<open>row = 0, col = 0, color = 0x0F\<close>.\<close>

definition boot_console :: "(int \<Rightarrow> uint16_t) \<Rightarrow> console" where
  "boot_console mem = \<lparr>VGA = mem, row = 0, col = 0, color = 0x0F\<rparr>"

subsection \<open>putc\<close>

definition newline :: char where
  "newline = CHR 0x0A"

text \<open>Line 11: \<open>if (row >= HEIGHT) { row = 0; }\<close>\<close>

definition wrap_row :: "console \<Rightarrow> console" where
  "wrap_row s = (if HEIGHT \<le>s row s then s\<lparr>row := 0\<rparr> else s)"

text \<open>The index expression of line 12, \<open>row*WIDTH + col\<close>, an \<open>int\<close>.\<close>

definition cell_index :: "console \<Rightarrow> int" where
  "cell_index s = sint (row s * WIDTH + col s)"

text \<open>The value stored by line 12: \<open>((uint16_t)color << 8) | (uint8_t)c\<close>.\<close>

definition cell_value :: "console \<Rightarrow> char \<Rightarrow> uint16_t" where
  "cell_value s c = push_bit 8 (ucast (color s)) OR ucast (of_char c :: uint8_t)"

text \<open>Line 12.\<close>

definition store_cell :: "char \<Rightarrow> console \<Rightarrow> console" where
  "store_cell c s = s\<lparr>VGA := (VGA s)(cell_index s := cell_value s c)\<rparr>"

text \<open>Lines 13 and 14: \<open>col++; if (col >= WIDTH) { col = 0; row++; }\<close>\<close>

definition advance :: "console \<Rightarrow> console" where
  "advance s =
     (let s1 = s\<lparr>col := col s + 1\<rparr>
      in if WIDTH \<le>s col s1 then s1\<lparr>col := 0, row := row s1 + 1\<rparr> else s1)"

definition putc :: "char \<Rightarrow> console \<Rightarrow> console" where
  "putc c s =
     (if c = newline then s\<lparr>row := row s + 1, col := 0\<rparr>
      else advance (store_cell c (wrap_row s)))"

subsection \<open>vga_init\<close>

definition vga_init :: "console \<Rightarrow> console" where
  "vga_init s = s\<lparr>row := 0, col := 0\<rparr>"

subsection \<open>vga_write_string\<close>

text \<open>
  The argument is the memory from \<open>s\<close> on, as a list of bytes. The loop stops at the first
  NUL; \<open>None\<close> is the loop leaving the bytes given without having met one.
\<close>

fun vga_write_string :: "char list \<Rightarrow> console \<Rightarrow> console option" where
  "vga_write_string [] s = None"
| "vga_write_string (c # cs) s =
     (if c = CHR 0x00 then Some s else vga_write_string cs (putc c s))"

text \<open>A string literal: its characters and the terminator the compiler appends.\<close>

definition literal :: "string \<Rightarrow> char list" where
  "literal cs = cs @ [CHR 0x00]"

subsection \<open>vga_write_int\<close>

text \<open>Line 28, the digit loop. \<open>n\<close> stays within 0..31, so it is a \<open>nat\<close> here.\<close>

function digit_loop :: "int64_t \<Rightarrow> char list \<Rightarrow> nat \<Rightarrow> int64_t \<times> char list \<times> nat" where
  "digit_loop v tmp n =
     (if 0 <s v \<and> n < 31
      then digit_loop (c_div v 10) (tmp[n := char_of (uint (of_char CHR ''0'' + c_mod v 10))]) (Suc n)
      else (v, tmp, n))"
  by pat_completeness auto
termination
  by (relation "measure (\<lambda>(v, tmp, n). 31 - n)") auto

declare digit_loop.simps [simp del]

text \<open>Line 29, \<open>for (i=n-1;i>=0;i--) putc(tmp[i]);\<close> with \<open>i\<close> an \<open>int\<close> that ends at -1.\<close>

function emit_loop :: "char list \<Rightarrow> int \<Rightarrow> console \<Rightarrow> console" where
  "emit_loop tmp i s = (if 0 \<le> i then emit_loop tmp (i - 1) (putc (tmp ! nat i) s) else s)"
  by pat_completeness auto
termination
  by (relation "measure (\<lambda>(tmp, i, s). nat (i + 1))") auto

declare emit_loop.simps [simp del]

text \<open>
  \<open>char tmp[32]\<close> is not initialised: its 32 cells hold whatever the stack held, the
  parameter \<open>stack\<close> here (a list of 32 bytes). \<open>buf\<close> is never used, and \<open>i\<close> is only
  the counter of line 29.
\<close>

definition vga_write_int_on :: "char list \<Rightarrow> int64_t \<Rightarrow> console \<Rightarrow> console" where
  "vga_write_int_on stack v s =
     (if v = 0 then putc CHR ''0'' s
      else
        let (s1, v1) = (if v <s 0 then (putc CHR ''-'' s, - v) else (s, v));
            (v2, tmp, n) = digit_loop v1 stack 0
        in emit_loop tmp (int n - 1) s1)"

text \<open>
  No cell of \<open>tmp\<close> is read before it is written, so the result is the same on every
  stack (\<open>vga_write_int_any_stack\<close>); \<open>vga_write_int\<close> is the function on a zeroed one.
\<close>

definition vga_write_int :: "int64_t \<Rightarrow> console \<Rightarrow> console" where
  "vga_write_int v s = vga_write_int_on (replicate 32 CHR 0x00) v s"

subsection \<open>Sequences of calls\<close>

text \<open>The four operations of the driver, and a client that calls them one after another.\<close>

datatype call =
    Initialize
  | Write_character char
  | Write_string "char list"
  | Write_integer int64_t

fun exec :: "call \<Rightarrow> console \<Rightarrow> console option" where
  "exec Initialize s = Some (vga_init s)"
| "exec (Write_character c) s = Some (putc c s)"
| "exec (Write_string bytes) s = vga_write_string bytes s"
| "exec (Write_integer v) s = Some (vga_write_int v s)"

fun run :: "call list \<Rightarrow> console \<Rightarrow> console option" where
  "run [] s = Some s"
| "run (c # cs) s = (case exec c s of None \<Rightarrow> None | Some s' \<Rightarrow> run cs s')"

text \<open>The column is within the grid.\<close>

definition col_ok :: "console \<Rightarrow> bool" where
  "col_ok s \<longleftrightarrow> 0 \<le>s col s \<and> col s <s WIDTH"

text \<open>A display memory to start concrete runs from: every cell 0.\<close>

definition blank :: "int \<Rightarrow> uint16_t" where
  "blank i = 0"

subsection \<open>Decimal notation\<close>

text \<open>
  The decimal representation of a natural number, as the specification words it: the digits,
  most significant first, a single \<open>0\<close> for zero. \<open>rdigits\<close> is the same digits the other way
  round (none for zero), the order in which repeated division by ten yields them.
\<close>

definition digit_char :: "nat \<Rightarrow> char" where
  "digit_char d = char_of (of_char CHR ''0'' + d)"

fun decimal :: "nat \<Rightarrow> string" where
  "decimal n = (if n < 10 then [digit_char n] else decimal (n div 10) @ [digit_char (n mod 10)])"

fun rdigits :: "nat \<Rightarrow> string" where
  "rdigits k = (if k = 0 then [] else digit_char (k mod 10) # rdigits (k div 10))"

declare decimal.simps [simp del] rdigits.simps [simp del]

text \<open>Reading a digit string back (Horner's rule).\<close>

definition digits_value :: "string \<Rightarrow> nat" where
  "digits_value ds = foldl (\<lambda>a c. 10 * a + (of_char c - of_char CHR ''0'')) 0 ds"

text \<open>The characters \<open>vga_write_int\<close> hands to \<open>putc\<close>, in order.\<close>

definition emitted :: "int64_t \<Rightarrow> string" where
  "emitted v =
     (if v = 0 then ''0''
      else if v <s 0 then CHR ''-'' # rev (rdigits (nat (sint (- v))))
      else rev (rdigits (nat (sint v))))"

text \<open>The least \<open>int64_t\<close>, \<open>-2^63\<close>.\<close>

definition INT64_MIN :: int64_t where
  "INT64_MIN = - (2 ^ 63)"

section \<open>The kernel entry (Examples/os/x86_64/kernel.c)\<close>

text \<open>
  \<open>gen_logic.h\<close> and the functions it declares are generated elsewhere; they are parameters
  here. Each takes and returns the state \<open>'w\<close> of whatever the generated code keeps, so that
  each call and the order of the calls show in the result. \<open>banner\<close> returns a pointer: its
  result is the memory from that pointer on, as for \<open>vga_write_string\<close>. The generated
  functions do not reach the statics of vga.c.
\<close>

record 'w gen_logic =
  banner :: "'w \<Rightarrow> char list \<times> 'w"
  meaning :: "'w \<Rightarrow> int64_t \<times> 'w"
  add :: "int64_t \<Rightarrow> int64_t \<Rightarrow> 'w \<Rightarrow> int64_t \<times> 'w"
  max2 :: "int64_t \<Rightarrow> int64_t \<Rightarrow> 'w \<Rightarrow> int64_t \<times> 'w"
  demo_expr :: "'w \<Rightarrow> int64_t \<times> 'w"

definition kputs :: "char list \<Rightarrow> console \<Rightarrow> console option" where
  "kputs bytes s = do {
     s1 \<leftarrow> vga_write_string bytes s;
     vga_write_string (literal [newline]) s1
   }"

text \<open>
  \<open>kmain\<close> as a machine that executes one line of its body at a time. A point is the line
  about to be executed; \<open>Returned\<close> is the end of the function (line 24), where control would
  go back to the caller, and \<open>Ran_off_string\<close> a \<open>vga_write_string\<close> that met no terminator.
  A frame holds the point, the console, the state of the generated code and the locals
  \<open>b\<close>, \<open>m\<close>, \<open>z\<close>, \<open>mx\<close>, \<open>d\<close>.
\<close>

datatype point =
    Line9 | Line10 | Line12 | Line13 | Line14 | Line15 | Line16
  | Line18 | Line19 | Line20 | Line21 | Line22 | Line23
  | Returned | Ran_off_string

record 'w frame =
  pc :: point
  vga :: console
  world :: 'w
  var_b :: "char list"
  var_m :: int64_t
  var_z :: int64_t
  var_mx :: int64_t
  var_d :: int64_t

text \<open>The calls of one line on the console, then on to the next line.\<close>

definition on_console :: "(console \<Rightarrow> console option) \<Rightarrow> point \<Rightarrow> 'w frame \<Rightarrow> 'w frame" where
  "on_console calls next f =
     (case calls (vga f) of
        None \<Rightarrow> f\<lparr>pc := Ran_off_string\<rparr>
      | Some s \<Rightarrow> f\<lparr>vga := s, pc := next\<rparr>)"

text \<open>
  \<open>hlt\<close> waits for the next interrupt and changes nothing of the state here.
\<close>

definition hlt :: "'a \<Rightarrow> 'a" where
  "hlt x = x"

text \<open>
  One line of \<open>kmain\<close>. Line 23 is \<open>for(;;) { __asm__ __volatile__("hlt"); }\<close>: the loop has
  no condition and no \<open>break\<close>, so after \<open>hlt\<close> the point is line 23 again, and nothing leads
  to \<open>Returned\<close>.
\<close>

definition kmain_step :: "'w gen_logic \<Rightarrow> 'w frame \<Rightarrow> 'w frame" where
  "kmain_step g f =
     (case pc f of
        Line9 \<Rightarrow> f\<lparr>vga := vga_init (vga f), pc := Line10\<rparr>
      | Line10 \<Rightarrow> on_console (kputs (literal ''FUSE kernel online'')) Line12 f
      | Line12 \<Rightarrow> (case banner g (world f) of (b, w) \<Rightarrow> f\<lparr>var_b := b, world := w, pc := Line13\<rparr>)
      | Line13 \<Rightarrow> (case meaning g (world f) of (m, w) \<Rightarrow> f\<lparr>var_m := m, world := w, pc := Line14\<rparr>)
      | Line14 \<Rightarrow> (case add g 20 22 (world f) of (z, w) \<Rightarrow> f\<lparr>var_z := z, world := w, pc := Line15\<rparr>)
      | Line15 \<Rightarrow> (case max2 g 11 17 (world f) of (mx, w) \<Rightarrow> f\<lparr>var_mx := mx, world := w, pc := Line16\<rparr>)
      | Line16 \<Rightarrow> (case demo_expr g (world f) of (d, w) \<Rightarrow> f\<lparr>var_d := d, world := w, pc := Line18\<rparr>)
      | Line18 \<Rightarrow>
          on_console (\<lambda>s. do {
            s1 \<leftarrow> vga_write_string (literal ''banner: '') s;
            s2 \<leftarrow> vga_write_string (var_b f) s1;
            vga_write_string (literal [newline]) s2 }) Line19 f
      | Line19 \<Rightarrow>
          on_console (\<lambda>s. do {
            s1 \<leftarrow> vga_write_string (literal ''meaning: '') s;
            vga_write_string (literal [newline]) (vga_write_int (var_m f) s1) }) Line20 f
      | Line20 \<Rightarrow>
          on_console (\<lambda>s. do {
            s1 \<leftarrow> vga_write_string (literal ''add(20,22): '') s;
            vga_write_string (literal [newline]) (vga_write_int (var_z f) s1) }) Line21 f
      | Line21 \<Rightarrow>
          on_console (\<lambda>s. do {
            s1 \<leftarrow> vga_write_string (literal ''max2(11,17): '') s;
            vga_write_string (literal [newline]) (vga_write_int (var_mx f) s1) }) Line22 f
      | Line22 \<Rightarrow>
          on_console (\<lambda>s. do {
            s1 \<leftarrow> vga_write_string (literal ''demo_expr: '') s;
            vga_write_string (literal [newline]) (vga_write_int (var_d f) s1) }) Line23 f
      | Line23 \<Rightarrow> (hlt f)\<lparr>pc := Line23\<rparr>
      | Returned \<Rightarrow> f
      | Ran_off_string \<Rightarrow> f)"

text \<open>\<open>kmain g n f\<close>: the frame after \<open>n\<close> lines of \<open>kmain\<close>, entered with frame \<open>f\<close>.\<close>

primrec kmain :: "'w gen_logic \<Rightarrow> nat \<Rightarrow> 'w frame \<Rightarrow> 'w frame" where
  "kmain g 0 f = f"
| "kmain g (Suc n) f = kmain_step g (kmain g n f)"

text \<open>A frame at the entry of \<open>kmain\<close>, to run it on.\<close>

definition entry :: "console \<Rightarrow> 'w \<Rightarrow> 'w frame" where
  "entry s w = \<lparr>pc = Line9, vga = s, world = w, var_b = [], var_m = 0, var_z = 0, var_mx = 0, var_d = 0\<rparr>"

text \<open>The text \<open>kmain\<close> puts on the screen, given what the generated functions returned.\<close>

definition kmain_text :: "string \<Rightarrow> int64_t \<Rightarrow> int64_t \<Rightarrow> int64_t \<Rightarrow> int64_t \<Rightarrow> string" where
  "kmain_text b m z mx d =
     ''FUSE kernel online'' @ [newline] @
     ''banner: '' @ b @ [newline] @
     ''meaning: '' @ emitted m @ [newline] @
     ''add(20,22): '' @ emitted z @ [newline] @
     ''max2(11,17): '' @ emitted mx @ [newline] @
     ''demo_expr: '' @ emitted d @ [newline]"

text \<open>
  Generated functions that keep a log of the calls made to them (and return fixed values),
  to run \<open>kmain\<close> on.
\<close>

datatype logged = Banner | Meaning | Add int64_t int64_t | Max2 int64_t int64_t | Demo_expr

definition logging :: "logged list gen_logic" where
  "logging = \<lparr>
     banner = (\<lambda>w. (literal ''FUSE'', w @ [Banner])),
     meaning = (\<lambda>w. (42, w @ [Meaning])),
     add = (\<lambda>a b w. (a + b, w @ [Add a b])),
     max2 = (\<lambda>a b w. (if b <s a then a else b, w @ [Max2 a b])),
     demo_expr = (\<lambda>w. (- 7, w @ [Demo_expr]))
   \<rparr>"

section \<open>Properties of the console driver\<close>

subsection \<open>Signed 64-bit arithmetic\<close>

lemma sint_bounds64: "- (2 ^ 63) \<le> sint (v :: int64_t) \<and> sint v < 2 ^ 63"
  using sint_ge [of v] sint_lt [of v] by simp

lemma sint_word_of_int64:
  "- (2 ^ 63) \<le> k \<Longrightarrow> k < 2 ^ 63 \<Longrightarrow> sint (word_of_int k :: int64_t) = k"
  by (simp add: sint_sbintrunc' signed_take_bit_int_eq_self)

lemma sint_c_div_pos:
  assumes "0 <s v"
  shows "sint (c_div v 10) = sint v div 10"
proof -
  from assms have pos: "0 < sint v" by (simp add: word_sless_alt)
  have "sint v sdiv 10 = sint v div 10"
    using pos by (simp add: signed_divide_int_def)
  moreover have "- (2 ^ 63) \<le> sint v div 10" "sint v div 10 < 2 ^ 63"
    using pos sint_bounds64 [of v] by auto
  ultimately show ?thesis
    by (simp add: c_div_def sint_word_of_int64)
qed

lemma digit_of_c_mod:
  assumes "0 <s v"
  shows "char_of (uint (of_char CHR ''0'' + c_mod v 10)) = digit_char (nat (sint v) mod 10)"
proof -
  from assms have pos: "0 < sint v" by (simp add: word_sless_alt)
  have m: "sint v smod 10 = sint v mod 10"
    using pos by (simp add: signed_modulo_int_def)
  have r: "0 \<le> sint v mod 10" "sint v mod 10 < 10" by simp_all
  have "uint (48 + word_of_int (sint v mod 10) :: int64_t) = 48 + sint v mod 10"
  proof -
    have "(48 + word_of_int (sint v mod 10) :: int64_t) = word_of_int (48 + sint v mod 10)"
      by simp
    moreover have "uint (word_of_int (48 + sint v mod 10) :: int64_t) = 48 + sint v mod 10"
      using r by (simp only: uint_word_of_int) simp
    ultimately show ?thesis by (simp only:)
  qed
  moreover have "char_of (48 + sint v mod 10) = char_of (48 + nat (sint v) mod 10)"
  proof -
    have "48 + sint v mod 10 = int (48 + nat (sint v) mod 10)"
      using pos by (simp add: nat_mod_distrib zmod_int)
    then show ?thesis by (simp only: char_of_nat)
  qed
  ultimately show ?thesis
    by (simp add: c_mod_def m digit_char_def)
qed

lemma length_rdigits: "k < 10 ^ d \<Longrightarrow> length (rdigits k) \<le> d"
proof (induction d arbitrary: k)
  case 0
  then show ?case by (simp add: rdigits.simps)
next
  case (Suc d)
  show ?case
  proof (cases "k = 0")
    case True
    then show ?thesis by (simp add: rdigits.simps)
  next
    case False
    from Suc.prems have "k div 10 < 10 ^ d" by (simp add: less_mult_imp_div_less mult.commute)
    from Suc.IH [OF this] False show ?thesis by (subst rdigits.simps) simp
  qed
qed

lemma rev_rdigits: "0 < k \<Longrightarrow> rev (rdigits k) = decimal k"
proof (induction k rule: decimal.induct)
  case (1 n)
  show ?case
  proof (cases "n < 10")
    case True
    with "1.prems" show ?thesis
      by (simp add: decimal.simps [of n] rdigits.simps [of n] rdigits.simps [of 0])
  next
    case False
    then have "0 < n div 10" by simp
    with "1.IH" False have "rev (rdigits (n div 10)) = decimal (n div 10)" by simp
    with False show ?thesis
      by (simp add: decimal.simps [of n] rdigits.simps [of n])
  qed
qed

lemma length_rdigits64: "length (rdigits (nat (sint (v :: int64_t)))) \<le> 19"
proof -
  have "sint v < int (2 ^ 63)"
    using sint_bounds64 [of v] by simp
  then have "nat (sint v) < 2 ^ 63"
    by (cases "0 \<le> sint v") (simp_all add: nat_less_iff)
  also have "(2 :: nat) ^ 63 < 10 ^ 19" by simp
  finally show ?thesis by (rule length_rdigits)
qed

lemma digit_loop_take:
  "length tmp = 32 \<Longrightarrow> n + length (rdigits (nat (sint v))) \<le> 31 \<Longrightarrow>
   digit_loop v tmp n = (v', tmp', n') \<Longrightarrow>
   n' = n + length (rdigits (nat (sint v))) \<and> take n' tmp' = take n tmp @ rdigits (nat (sint v))"
proof (induction v tmp n rule: digit_loop.induct)
  case (1 v tmp n)
  let ?k = "nat (sint v)"
  show ?case
  proof (cases "0 <s v")
    case False
    then have "?k = 0" by (simp add: word_sless_alt)
    then have "rdigits ?k = []" by (simp add: rdigits.simps)
    with False "1.prems" show ?thesis by (subst (asm) digit_loop.simps) simp
  next
    case True
    then have kpos: "0 < ?k" by (simp add: word_sless_alt)
    let ?d = "char_of (uint (of_char CHR ''0'' + c_mod v 10))"
    have rd: "rdigits ?k = digit_char (?k mod 10) # rdigits (?k div 10)"
      using kpos by (subst rdigits.simps) simp
    have d: "?d = digit_char (?k mod 10)"
      using True by (rule digit_of_c_mod)
    have k': "nat (sint (c_div v 10)) = ?k div 10"
      using True by (simp add: sint_c_div_pos nat_div_distrib)
    from "1.prems"(2) rd have n31: "n < 31" by simp
    with "1.prems"(1) have nlen: "n < length tmp" by simp
    from True n31 "1.prems"(3)
    have run: "digit_loop (c_div v 10) (tmp[n := ?d]) (Suc n) = (v', tmp', n')"
      by (subst (asm) digit_loop.simps) simp
    have "n' = Suc n + length (rdigits (nat (sint (c_div v 10)))) \<and>
          take n' tmp' = take (Suc n) (tmp[n := ?d]) @ rdigits (nat (sint (c_div v 10)))"
    proof (rule "1.IH")
      show "0 <s v \<and> n < 31" using True n31 by simp
      show "length (tmp[n := ?d]) = 32" using "1.prems"(1) by simp
      show "Suc n + length (rdigits (nat (sint (c_div v 10)))) \<le> 31"
        using "1.prems"(2) rd k' by simp
      show "digit_loop (c_div v 10) (tmp[n := ?d]) (Suc n) = (v', tmp', n')" by (rule run)
    qed
    moreover have "take (Suc n) (tmp[n := ?d]) = take n tmp @ [?d]"
      using nlen by (simp add: take_Suc_conv_app_nth)
    ultimately show ?thesis
      using rd d k' by auto
  qed
qed

lemma emit_loop_fold:
  "n \<le> length tmp \<Longrightarrow> emit_loop tmp (int n - 1) s = fold putc (rev (take n tmp)) s"
proof (induction n arbitrary: s)
  case 0
  then show ?case by (subst emit_loop.simps) simp
next
  case (Suc n)
  then have "n < length tmp" by simp
  then have t: "rev (take (Suc n) tmp) = tmp ! n # rev (take n tmp)"
    by (simp add: take_Suc_conv_app_nth)
  have "emit_loop tmp (int (Suc n) - 1) s = emit_loop tmp (int n - 1) (putc (tmp ! n) s)"
    by (subst emit_loop.simps) simp
  also have "\<dots> = fold putc (rev (take n tmp)) (putc (tmp ! n) s)"
    using Suc by simp
  finally show ?case by (simp add: t)
qed

lemma digits_emit:
  assumes len: "length stack = 32" and run: "digit_loop v stack 0 = (v', tmp, n)"
  shows "emit_loop tmp (int n - 1) s = fold putc (rev (rdigits (nat (sint v)))) s"
proof -
  have b: "0 + length (rdigits (nat (sint v))) \<le> 31"
    using length_rdigits64 [of v] by simp
  from digit_loop_take [OF len b run]
  have n: "n = length (rdigits (nat (sint v)))" and t: "take n tmp = rdigits (nat (sint v))"
    by auto
  have "n \<le> length tmp"
    using t n by (metis length_take min.cobounded1 min_def)
  from emit_loop_fold [OF this] t show ?thesis by simp
qed

lemma vga_write_int_on_emitted:
  assumes "length stack = 32"
  shows "vga_write_int_on stack v s = fold putc (emitted v) s"
proof (cases "v = 0")
  case True
  then show ?thesis by (simp add: vga_write_int_on_def emitted_def)
next
  case False
  show ?thesis
  proof (cases "v <s 0")
    case True
    obtain v' tmp n where run: "digit_loop (- v) stack 0 = (v', tmp, n)"
      by (cases "digit_loop (- v) stack 0") auto
    from digits_emit [OF assms run] False True run show ?thesis
      by (simp add: vga_write_int_on_def emitted_def)
  next
    case neg: False
    obtain v' tmp n where run: "digit_loop v stack 0 = (v', tmp, n)"
      by (cases "digit_loop v stack 0") auto
    from digits_emit [OF assms run] False neg run show ?thesis
      by (simp add: vga_write_int_on_def emitted_def)
  qed
qed

lemma vga_write_int_emitted: "vga_write_int v s = fold putc (emitted v) s"
  by (simp add: vga_write_int_def vga_write_int_on_emitted)

lemma vga_write_int_any_stack:
  "length stack = 32 \<Longrightarrow> vga_write_int_on stack v s = vga_write_int v s"
  by (simp add: vga_write_int_emitted vga_write_int_on_emitted)

subsection \<open>Decimal notation and \<open>vga_write_int\<close>\<close>

lemma digit_char_values:
  "digit_char 0 = CHR ''0''" "digit_char 1 = CHR ''1''" "digit_char 2 = CHR ''2''"
  "digit_char 3 = CHR ''3''" "digit_char 4 = CHR ''4''" "digit_char 5 = CHR ''5''"
  "digit_char 6 = CHR ''6''" "digit_char 7 = CHR ''7''" "digit_char 8 = CHR ''8''"
  "digit_char 9 = CHR ''9''"
  by (simp_all add: digit_char_def char_of_eq_iff take_bit_eq_mod)

lemma of_char_digit_char: "d < 10 \<Longrightarrow> of_char (digit_char d) = (48 + d :: nat)"
  by (simp add: digit_char_def)

lemma digits_value_snoc:
  "digits_value (ds @ [c]) = 10 * digits_value ds + (of_char c - of_char CHR ''0'')"
  by (simp add: digits_value_def)

lemma digits_value_decimal: "digits_value (decimal n) = n"
proof (induction n rule: decimal.induct)
  case (1 n)
  show ?case
  proof (cases "n < 10")
    case True
    then show ?thesis
      by (simp add: decimal.simps [of n] digits_value_def of_char_digit_char)
  next
    case False
    with "1.IH" have "digits_value (decimal (n div 10)) = n div 10" by simp
    with False show ?thesis
      by (simp add: decimal.simps [of n] digits_value_snoc of_char_digit_char)
  qed
qed

lemma hd_decimal: "0 < n \<Longrightarrow> hd (decimal n) \<noteq> CHR ''0''"
proof (induction n rule: decimal.induct)
  case (1 n)
  show ?case
  proof (cases "n < 10")
    case True
    have "of_char (digit_char n) \<noteq> (of_char CHR ''0'' :: nat)"
      using True "1.prems" by (simp add: of_char_digit_char)
    then have "digit_char n \<noteq> CHR ''0''" by auto
    with True show ?thesis by (simp add: decimal.simps [of n])
  next
    case False
    then have "0 < n div 10" by simp
    with "1.IH" False have "hd (decimal (n div 10)) \<noteq> CHR ''0''" by simp
    moreover have "decimal (n div 10) \<noteq> []" by (subst decimal.simps) simp
    ultimately show ?thesis using False by (simp add: decimal.simps [of n])
  qed
qed

lemma decimal_digits: "c \<in> set (decimal n) \<Longrightarrow> c \<in> digit_char ` {..<10}"
proof (induction n rule: decimal.induct)
  case (1 n)
  show ?case
  proof (cases "n < 10")
    case True
    with "1.prems" show ?thesis by (simp add: decimal.simps [of n])
  next
    case False
    with "1.prems" have "c \<in> set (decimal (n div 10)) \<or> c = digit_char (n mod 10)"
      by (auto simp add: decimal.simps [of n])
    with "1.IH" False show ?thesis by auto
  qed
qed

lemma emitted_nonneg: "0 \<le>s v \<Longrightarrow> emitted v = decimal (nat (sint v))"
proof (cases "v = 0")
  case True
  then show ?thesis by (simp add: emitted_def decimal.simps [of 0] digit_char_values)
next
  case False
  assume "0 \<le>s v"
  with False have "0 < sint v"
    by (metis word_sle_eq sint_0 signed_eq_0_iff order_le_less)
  then show ?thesis
    using False by (simp add: emitted_def word_sless_alt rev_rdigits)
qed

text \<open>
  Claim C5. For every \<open>v \<ge> 0\<close>, \<open>vga_write_int v\<close> is exactly the calls of \<open>putc\<close> on the
  characters of the decimal representation of \<open>v\<close>, most significant digit first: the single
  \<open>0\<close> for zero, no leading zero otherwise (\<open>hd_decimal\<close>), nothing before, between or after.
\<close>

theorem write_integer_nonneg:
  "0 \<le>s v \<Longrightarrow> vga_write_int v s = fold putc (decimal (nat (sint v))) s"
  by (simp add: vga_write_int_emitted emitted_nonneg)

theorem write_integer_nonneg_witness:
  "(0 :: int64_t) \<le>s 42 \<and>
   vga_write_int 42 (boot_console blank) = putc CHR ''2'' (putc CHR ''4'' (boot_console blank))"
proof -
  have h: "(0 :: int64_t) \<le>s 42" by (simp add: word_sle_eq)
  have d: "decimal 42 = ''42''" by (simp add: decimal.simps digit_char_values)
  show ?thesis using h write_integer_nonneg [OF h, of "boot_console blank"] by (simp add: d)
qed

subsection \<open>\<open>putc\<close>, \<open>vga_init\<close> and \<open>vga_write_string\<close>\<close>

lemma putc_newline: "putc newline s = s\<lparr>row := row s + 1, col := 0\<rparr>"
  by (simp add: putc_def)

lemma wrap_row_eq: "wrap_row s = s\<lparr>row := (if HEIGHT \<le>s row s then 0 else row s)\<rparr>"
  by (simp add: wrap_row_def)

lemma putc_glyph:
  "c \<noteq> newline \<Longrightarrow>
   putc c s =
     s\<lparr>row := (if WIDTH \<le>s col s + 1
               then (if HEIGHT \<le>s row s then 0 else row s) + 1
               else (if HEIGHT \<le>s row s then 0 else row s)),
       col := (if WIDTH \<le>s col s + 1 then 0 else col s + 1),
       VGA := (VGA s)(sint ((if HEIGHT \<le>s row s then 0 else row s) * WIDTH + col s)
                := cell_value s c)\<rparr>"
  by (simp add: putc_def advance_def store_cell_def wrap_row_def cell_index_def cell_value_def Let_def)

lemma sint_bounds32: "- (2 ^ 31) \<le> sint (v :: c_int) \<and> sint v < 2 ^ 31"
  using sint_ge [of v] sint_lt [of v] by simp

lemma sint_succ32: "sint (x :: c_int) < 2 ^ 31 - 1 \<Longrightarrow> sint (x + 1) = sint x + 1"
  using sint_bounds32 [of x]
  by (simp add: sint_word_ariths signed_take_bit_int_eq_self)

lemma col_reaches_WIDTH:
  assumes "0 \<le>s col s" "col s <s WIDTH"
  shows "WIDTH \<le>s col s + 1 \<longleftrightarrow> col s + 1 = WIDTH"
proof -
  from assms have b: "0 \<le> sint (col s)" "sint (col s) < 80"
    by (simp_all add: word_sle_eq word_sless_alt WIDTH_def)
  then have s: "sint (col s + 1) = sint (col s) + 1"
    by (simp add: sint_succ32)
  have "col s + 1 = WIDTH \<longleftrightarrow> sint (col s + 1) = sint WIDTH"
    by (auto intro: signed_word_eqI)
  with s b show ?thesis
    by (auto simp add: word_sle_eq WIDTH_def)
qed

lemma cell_value_low: "(ucast (cell_value s c) :: uint8_t) = of_char c"
  by (rule bit_word_eqI) (auto simp add: cell_value_def bit_simps)

lemma cell_value_high: "(ucast (drop_bit 8 (cell_value s c)) :: uint8_t) = color s"
  by (rule bit_word_eqI) (auto simp add: cell_value_def bit_simps dest: bit_imp_le_length)

text \<open>
  Claim C3. For a character other than newline, \<open>putc\<close> first sets the row to 0 if it is at
  or beyond \<open>HEIGHT\<close> (the column is not touched by that), stores the character at the cell
  of the cursor (the low byte of the cell is the character, the high byte the colour), then
  adds one to the column, and moves to column 0 of the next row exactly when the column has
  reached \<open>WIDTH\<close>; for a column within the grid that is when it becomes equal to \<open>WIDTH\<close>.
  The increments are the integer ones: neither overflows there.
\<close>

theorem write_character_glyph:
  "c \<noteq> newline \<Longrightarrow>
   (let r = (if HEIGHT \<le>s row s then 0 else row s);
        wraps = (WIDTH \<le>s col s + 1)
    in wrap_row s = s\<lparr>row := r\<rparr> \<and>
       putc c s =
         s\<lparr>row := (if wraps then r + 1 else r),
           col := (if wraps then 0 else col s + 1),
           VGA := (VGA s)(sint (r * WIDTH + col s) := cell_value s c)\<rparr> \<and>
       (ucast (cell_value s c) :: uint8_t) = of_char c \<and>
       (ucast (drop_bit 8 (cell_value s c)) :: uint8_t) = color s \<and>
       sint (r + 1) = sint r + 1 \<and>
       (0 \<le>s col s \<and> col s <s WIDTH \<longrightarrow>
          (wraps \<longleftrightarrow> col s + 1 = WIDTH) \<and> sint (col s + 1) = sint (col s) + 1))"
proof -
  assume c: "c \<noteq> newline"
  let ?r = "if HEIGHT \<le>s row s then 0 else row s"
  have "sint ?r < 25" by (auto simp add: HEIGHT_def word_sle_eq)
  then have r1: "sint (?r + 1) = sint ?r + 1" by (intro sint_succ32) simp
  have c1: "sint (col s + 1) = sint (col s) + 1" if "0 \<le>s col s" "col s <s WIDTH"
    using that by (intro sint_succ32) (simp add: word_sless_alt WIDTH_def)
  show ?thesis
    unfolding Let_def
    using c r1 c1 col_reaches_WIDTH [of s]
    by (simp add: putc_glyph wrap_row_eq cell_value_low cell_value_high)
qed

theorem write_character_glyph_witness:
  "CHR ''z'' \<noteq> newline \<and>
   0 \<le>s col ((boot_console blank)\<lparr>row := 25, col := 79, color := 0x1E\<rparr>) \<and>
   col ((boot_console blank)\<lparr>row := 25, col := 79, color := 0x1E\<rparr>) <s WIDTH \<and>
   putc CHR ''z'' ((boot_console blank)\<lparr>row := 25, col := 79, color := 0x1E\<rparr>) =
     \<lparr>VGA = blank(79 := 0x1E7A), row = 1, col = 0, color = 0x1E\<rparr>"
proof -
  have h: "CHR ''z'' \<noteq> newline" by (simp add: newline_def)
  show ?thesis
    using h write_character_glyph [OF h, of "(boot_console blank)\<lparr>row := 25, col := 79, color := 0x1E\<rparr>"]
    by (simp add: Let_def cell_value_def boot_console_def WIDTH_def HEIGHT_def
        word_sle_eq word_sless_alt)
qed

text \<open>A newline below the greatest \<open>int\<close> row: the next row, column 0, no cell changed.\<close>

lemma putc_newline_next_row:
  "sint (row s) < 2 ^ 31 - 1 \<Longrightarrow>
   sint (row (putc newline s)) = sint (row s) + 1 \<and> col (putc newline s) = 0 \<and>
   VGA (putc newline s) = VGA s"
  by (simp add: putc_newline sint_succ32)

text \<open>
  Claim C8. \<open>vga_init\<close> sets the cursor to (0,0) and changes no cell; a second call in
  succession gives the same state as the first, cursor (0,0), cells as they were.
\<close>

theorem initialize_idempotent:
  "row (vga_init s) = 0 \<and> col (vga_init s) = 0 \<and>
   VGA (vga_init s) = VGA s \<and> color (vga_init s) = color s \<and>
   vga_init (vga_init s) = vga_init s \<and>
   row (vga_init (vga_init s)) = 0 \<and> col (vga_init (vga_init s)) = 0 \<and>
   VGA (vga_init (vga_init s)) = VGA (vga_init s)"
  by (simp add: vga_init_def)

lemma vga_write_string_terminated:
  "CHR 0x00 \<notin> set cs \<Longrightarrow> vga_write_string (cs @ CHR 0x00 # rest) s = Some (fold putc cs s)"
  by (induction cs arbitrary: s) auto

lemma vga_write_string_literal:
  "CHR 0x00 \<notin> set cs \<Longrightarrow> vga_write_string (literal cs) s = Some (fold putc cs s)"
  by (simp add: literal_def vga_write_string_terminated)

text \<open>
  Claim C7. On a NUL-terminated string, \<open>vga_write_string\<close> returns, and the state it returns
  is that of \<open>putc\<close> called on each character before the terminator, from left to right,
  from any starting state; what follows the terminator in memory is not read.
\<close>

theorem write_string_decomposes:
  "CHR 0x00 \<notin> set cs \<Longrightarrow>
   vga_write_string (cs @ CHR 0x00 # rest) s = Some (fold putc cs s) \<and>
   run [Write_string (cs @ CHR 0x00 # rest)] s = run (map Write_character cs) s"
proof -
  assume h: "CHR 0x00 \<notin> set cs"
  have "run (map Write_character cs) s = Some (fold putc cs s)" for s
    by (induction cs arbitrary: s) simp_all
  with h show ?thesis by (simp add: vga_write_string_terminated)
qed

theorem write_string_decomposes_witness:
  "CHR 0x00 \<notin> set [CHR ''A'', CHR ''B'', newline, CHR ''C''] \<and>
   vga_write_string (literal [CHR ''A'', CHR ''B'', newline, CHR ''C'']) (boot_console blank)
     = Some (putc CHR ''C'' (putc newline (putc CHR ''B'' (putc CHR ''A'' (boot_console blank)))))"
proof -
  have h: "CHR 0x00 \<notin> set [CHR ''A'', CHR ''B'', newline, CHR ''C'']"
    by (simp add: newline_def)
  show ?thesis
    using h write_string_decomposes [OF h, of "[]" "boot_console blank"]
    by (simp add: literal_def)
qed

subsection \<open>\<open>vga_write_int\<close> on negative values\<close>

lemma INT64_MIN_negated: "- INT64_MIN = INT64_MIN"
  by (simp add: INT64_MIN_def)

lemma sint_INT64_MIN: "sint INT64_MIN = - (2 ^ 63)"
  by (simp add: INT64_MIN_def)

lemma not_pos_INT64_MIN: "\<not> 0 <s INT64_MIN"
  by (simp add: INT64_MIN_def word_sless_alt)

lemma INT64_MIN_negative: "INT64_MIN <s 0"
  by (simp add: INT64_MIN_def word_sless_alt)

lemma nz_INT64_MIN: "INT64_MIN \<noteq> 0"
  by (simp add: INT64_MIN_def)

lemma emitted_INT64_MIN: "emitted INT64_MIN = ''-''"
  by (simp add: emitted_def nz_INT64_MIN INT64_MIN_negative INT64_MIN_negated sint_INT64_MIN rdigits.simps)

lemma digit_loop_INT64_MIN: "digit_loop INT64_MIN tmp 0 = (INT64_MIN, tmp, 0)"
  by (subst digit_loop.simps) (simp add: not_pos_INT64_MIN)

text \<open>
  Claim C10. With negation modulo \<open>2^64\<close>, the least \<open>int64_t\<close> is its own negation, which is
  not greater than zero: the digit loop leaves at once with \<open>n = 0\<close>, and \<open>vga_write_int\<close>
  has called \<open>putc\<close> once, on the minus sign.
\<close>

theorem write_integer_min:
  "sint INT64_MIN = - (2 ^ 63) \<and>
   - INT64_MIN = INT64_MIN \<and>
   \<not> 0 <s - INT64_MIN \<and>
   digit_loop (- INT64_MIN) tmp 0 = (INT64_MIN, tmp, 0) \<and>
   emitted INT64_MIN = ''-'' \<and>
   vga_write_int INT64_MIN s = putc CHR ''-'' s"
  by (simp add: sint_INT64_MIN INT64_MIN_negated not_pos_INT64_MIN digit_loop_INT64_MIN
      emitted_INT64_MIN vga_write_int_emitted)

lemma sint_neg64:
  assumes "v \<noteq> INT64_MIN"
  shows "sint (- v) = - sint (v :: int64_t)"
proof -
  have "sint v \<noteq> - (2 ^ 63)"
  proof
    assume "sint v = - (2 ^ 63)"
    then have "sint v = sint INT64_MIN" by (simp add: sint_INT64_MIN)
    then have "v = INT64_MIN" by (rule signed_word_eqI)
    with assms show False by simp
  qed
  with sint_bounds64 [of v] have "- (2 ^ 63) \<le> - sint v" "- sint v < 2 ^ 63" by simp_all
  then show ?thesis
    by (simp add: sint_word_ariths signed_take_bit_int_eq_self)
qed

lemma emitted_negative:
  assumes "v <s 0" "v \<noteq> INT64_MIN"
  shows "emitted v = CHR ''-'' # decimal (nat (- sint v))"
proof -
  from assms(1) have neg: "sint v < 0" by (simp add: word_sless_alt)
  then have "v \<noteq> 0" by auto
  moreover have "0 < nat (- sint v)" using neg by simp
  ultimately show ?thesis
    using assms by (simp add: emitted_def sint_neg64 rev_rdigits)
qed

lemma write_integer_negative:
  "v <s 0 \<Longrightarrow> v \<noteq> INT64_MIN \<Longrightarrow>
   vga_write_int v s = fold putc (CHR ''-'' # decimal (nat (- sint v))) s"
  by (simp add: vga_write_int_emitted emitted_negative)

lemma decimal_2_63: "decimal (nat (- sint INT64_MIN)) = ''9223372036854775808''"
  by (simp add: sint_INT64_MIN decimal.simps digit_char_values)

lemma col_fold_putc:
  "newline \<notin> set cs \<Longrightarrow> 0 \<le> sint (col s) \<Longrightarrow> sint (col s) + int (length cs) < 80 \<Longrightarrow>
   sint (col (fold putc cs s)) = sint (col s) + int (length cs)"
proof (induction cs arbitrary: s)
  case Nil
  then show ?case by simp
next
  case (Cons c cs)
  from Cons.prems have c: "c \<noteq> newline" by auto
  from Cons.prems have b: "sint (col s) < 79" by simp
  with Cons.prems(2) have s1: "sint (col s + 1) = sint (col s) + 1"
    by (simp add: sint_succ32)
  with b have nw: "\<not> WIDTH \<le>s col s + 1"
    by (simp add: word_sle_eq WIDTH_def)
  have col1: "col (putc c s) = col s + 1"
    using c nw by (simp add: putc_glyph)
  have "sint (col (fold putc cs (putc c s))) = sint (col (putc c s)) + int (length cs)"
  proof (rule Cons.IH)
    show "newline \<notin> set cs" using Cons.prems by simp
    show "0 \<le> sint (col (putc c s))" using col1 s1 Cons.prems(2) by simp
    show "sint (col (putc c s)) + int (length cs) < 80" using col1 s1 Cons.prems(3) by simp
  qed
  with col1 s1 show ?case by simp
qed

text \<open>
  Claim C6, at the least \<open>int64_t\<close>: a minus sign followed by the digits of \<open>-v\<close> would be
  \<open>-9223372036854775808\<close>; \<open>vga_write_int\<close> writes the minus sign alone. For every other
  negative \<open>v\<close> it writes the minus sign and the digits of \<open>-v\<close> (\<open>write_integer_negative\<close>).
\<close>

theorem write_integer_min_diverges:
  "INT64_MIN <s 0 \<and>
   CHR ''-'' # decimal (nat (- sint INT64_MIN)) = ''-9223372036854775808'' \<and>
   vga_write_int INT64_MIN (boot_console blank) = fold putc ''-'' (boot_console blank) \<and>
   vga_write_int INT64_MIN (boot_console blank)
     \<noteq> fold putc ''-9223372036854775808'' (boot_console blank)"
proof -
  have a: "vga_write_int INT64_MIN (boot_console blank) = fold putc ''-'' (boot_console blank)"
    by (simp add: vga_write_int_emitted emitted_INT64_MIN)
  have "sint (col (fold putc ''-'' (boot_console blank))) = 1"
    by (subst col_fold_putc) (simp_all add: newline_def boot_console_def)
  moreover have "sint (col (fold putc ''-9223372036854775808'' (boot_console blank))) = 20"
    by (subst col_fold_putc) (simp_all add: newline_def boot_console_def)
  ultimately have "fold putc ''-'' (boot_console blank)
     \<noteq> fold putc ''-9223372036854775808'' (boot_console blank)"
    by auto
  then show ?thesis
    using a by (simp only: INT64_MIN_negative decimal_2_63) simp
qed

subsection \<open>Sequences of calls\<close>

lemma col_ok_vga_init: "col_ok (vga_init s)"
  by (simp add: col_ok_def vga_init_def WIDTH_def word_sle_eq word_sless_alt)

lemma col_ok_putc:
  assumes "col_ok s"
  shows "col_ok (putc c s)"
proof (cases "c = newline")
  case True
  then show ?thesis
    by (simp add: putc_newline col_ok_def WIDTH_def word_sle_eq word_sless_alt)
next
  case False
  from assms have b: "0 \<le> sint (col s)" "sint (col s) < 80"
    by (simp_all add: col_ok_def word_sle_eq word_sless_alt WIDTH_def)
  then have "sint (col s + 1) = sint (col s) + 1"
    by (simp add: sint_succ32)
  with b False show ?thesis
    by (simp add: putc_glyph col_ok_def WIDTH_def word_sle_eq word_sless_alt)
qed

lemma col_ok_fold_putc: "col_ok s \<Longrightarrow> col_ok (fold putc cs s)"
  by (induction cs arbitrary: s) (simp_all add: col_ok_putc)

lemma col_ok_vga_write_string:
  "col_ok s \<Longrightarrow> vga_write_string bytes s = Some s' \<Longrightarrow> col_ok s'"
proof (induction bytes arbitrary: s)
  case Nil
  then show ?case by simp
next
  case (Cons c bytes)
  show ?case
  proof (cases "c = CHR 0x00")
    case True
    with Cons.prems show ?thesis by simp
  next
    case False
    with Cons.prems have "vga_write_string bytes (putc c s) = Some s'" by simp
    moreover have "col_ok (putc c s)" using Cons.prems(1) by (rule col_ok_putc)
    ultimately show ?thesis by (rule Cons.IH [rotated])
  qed
qed

lemma col_ok_exec: "col_ok s \<or> c = Initialize \<Longrightarrow> exec c s = Some s' \<Longrightarrow> col_ok s'"
  by (cases c)
    (auto simp add: col_ok_vga_init col_ok_putc vga_write_int_emitted col_ok_fold_putc
      dest: col_ok_vga_write_string)

lemma col_ok_run: "col_ok s \<Longrightarrow> run calls s = Some s' \<Longrightarrow> col_ok s'"
proof (induction calls arbitrary: s)
  case Nil
  then show ?case by simp
next
  case (Cons c calls)
  then obtain s1 where e: "exec c s = Some s1" and r: "run calls s1 = Some s'"
    by (auto split: option.splits)
  from col_ok_exec [OF _ e] Cons.prems(1) have "col_ok s1" by simp
  with Cons.IH r show ?case by simp
qed

lemma row_at_store:
  "row (wrap_row s) <s HEIGHT \<and> (HEIGHT \<le>s row s \<longrightarrow> row (wrap_row s) = 0)
    \<and> (\<not> HEIGHT \<le>s row s \<longrightarrow> row (wrap_row s) = row s)"
  by (auto simp add: wrap_row_def HEIGHT_def word_sle_eq word_sless_alt)

lemma row_after_glyph:
  assumes "c \<noteq> newline"
  shows "row (putc c s) \<le>s HEIGHT"
proof -
  let ?r = "if HEIGHT \<le>s row s then 0 else row s"
  have r: "sint ?r < 25"
    by (auto simp add: HEIGHT_def word_sle_eq)
  then have "sint (?r + 1) = sint ?r + 1"
    by (intro sint_succ32) simp
  with r have "sint (?r + 1) \<le> 25" by simp
  with r assms show ?thesis
    by (simp add: putc_glyph word_sle_eq HEIGHT_def)
qed

lemma run_append:
  "run (xs @ ys) s = (case run xs s of None \<Rightarrow> None | Some s' \<Rightarrow> run ys s')"
  by (induction xs arbitrary: s) (simp_all split: option.splits)

lemma run_newlines:
  "run (replicate n (Write_character newline)) s =
     Some (if n = 0 then s else s\<lparr>row := row s + of_nat n, col := 0\<rparr>)"
proof (induction n arbitrary: s)
  case 0
  then show ?case by simp
next
  case (Suc n)
  show ?case by (simp add: Suc putc_newline add.assoc add.commute)
qed

text \<open>
  Claim C2, as stated, fails: after \<open>vga_init\<close> and 25 newlines the cursor rests at row 25,
  which is \<open>HEIGHT\<close>.
\<close>

theorem row_reaches_HEIGHT:
  "run (Initialize # replicate 25 (Write_character newline)) (boot_console blank)
     = Some \<lparr>VGA = blank, row = 25, col = 0, color = 0x0F\<rparr> \<and>
   HEIGHT \<le>s row \<lparr>VGA = blank, row = 25, col = 0, color = 0x0F\<rparr>"
  by (simp add: run_newlines vga_init_def boot_console_def HEIGHT_def word_sle_eq)

lemma store_in_bounds:
  assumes "0 \<le>s row s" "0 \<le>s col s" "col s <s WIDTH"
  shows "0 \<le> cell_index (wrap_row s) \<and> cell_index (wrap_row s) < 2000"
proof -
  let ?r = "row (wrap_row s)"
  from assms(1) have r: "0 \<le> sint ?r" "sint ?r < 25"
    by (auto simp add: wrap_row_def HEIGHT_def word_sle_eq)
  from assms have c: "0 \<le> sint (col s)" "sint (col s) < 80"
    by (simp_all add: word_sle_eq word_sless_alt WIDTH_def)
  have m0: "0 \<le> sint ?r * 80" using r by simp
  have m1: "sint ?r * 80 \<le> 24 * 80" using r by simp
  have "sint (?r * 80) = sint ?r * 80"
    using m0 m1 by (simp add: sint_word_ariths signed_take_bit_int_eq_self)
  moreover have "sint (?r * 80 + col s) = sint (?r * 80) + sint (col s)"
    using m0 m1 c calculation by (simp add: sint_word_ariths signed_take_bit_int_eq_self)
  moreover have "col (wrap_row s) = col s" by (simp add: wrap_row_def)
  ultimately show ?thesis
    using m0 m1 c by (simp add: cell_index_def WIDTH_def)
qed

lemma store_index:
  assumes "0 \<le>s row s" "0 \<le>s col s" "col s <s WIDTH"
  shows "cell_index (wrap_row s) = sint (row (wrap_row s)) * 80 + sint (col s) \<and>
         0 \<le> sint (row (wrap_row s)) \<and> sint (row (wrap_row s)) < 25 \<and>
         0 \<le> sint (col s) \<and> sint (col s) < 80"
proof -
  let ?r = "row (wrap_row s)"
  from assms(1) have r: "0 \<le> sint ?r" "sint ?r < 25"
    by (auto simp add: wrap_row_def HEIGHT_def word_sle_eq)
  from assms have c: "0 \<le> sint (col s)" "sint (col s) < 80"
    by (simp_all add: word_sle_eq word_sless_alt WIDTH_def)
  have m0: "0 \<le> sint ?r * 80" using r by simp
  have m1: "sint ?r * 80 \<le> 24 * 80" using r by simp
  have a: "sint (?r * 80) = sint ?r * 80"
    using m0 m1 by (simp add: sint_word_ariths signed_take_bit_int_eq_self)
  have "sint (?r * 80 + col s) = sint (?r * 80) + sint (col s)"
    using m0 m1 c a by (simp add: sint_word_ariths signed_take_bit_int_eq_self)
  moreover have "col (wrap_row s) = col s" by (simp add: wrap_row_def)
  ultimately show ?thesis
    using a r c by (simp add: cell_index_def WIDTH_def)
qed

lemma VGA_putc_glyph:
  "c \<noteq> newline \<Longrightarrow>
   VGA (putc c s) = (VGA s)(cell_index (wrap_row s) := cell_value s c)"
  by (simp add: putc_glyph cell_index_def wrap_row_def)

text \<open>
  Claim C2, as the code has it. After every sequence of calls that starts with \<open>vga_init\<close>
  the column is within \<open>0..WIDTH-1\<close>. The row is not wrapped when it reaches \<open>HEIGHT\<close>: it
  is wrapped to 0 by the next write of a character other than newline. That write stores
  its cell at index \<open>r * WIDTH + col\<close>, where \<open>r\<close>, the row after the wrap, is below \<open>HEIGHT\<close>
  (and, for a row that was not negative, within \<open>0..HEIGHT-1\<close>, the index being the integer
  \<open>r * 80 + col\<close>), and leaves the row at most \<open>HEIGHT\<close>.
\<close>

theorem cursor_invariant:
  "run (Initialize # calls) s0 = Some s \<Longrightarrow>
   (0 \<le>s col s \<and> col s <s WIDTH) \<and>
   (\<forall>c. c \<noteq> newline \<longrightarrow>
      (let r = (if HEIGHT \<le>s row s then 0 else row s)
       in r <s HEIGHT \<and>
          VGA (putc c s) = (VGA s)(sint (r * WIDTH + col s) := cell_value s c) \<and>
          (0 \<le>s row s \<longrightarrow>
             sint (r * WIDTH + col s) = sint r * 80 + sint (col s) \<and>
             0 \<le> sint r \<and> sint r < 25 \<and> 0 \<le> sint (col s) \<and> sint (col s) < 80) \<and>
          row (putc c s) \<le>s HEIGHT))"
proof -
  assume "run (Initialize # calls) s0 = Some s"
  then have "run calls (vga_init s0) = Some s" by simp
  with col_ok_vga_init have ok: "col_ok s" by (rule col_ok_run)
  then have c: "0 \<le>s col s" "col s <s WIDTH" by (simp_all add: col_ok_def)
  let ?r = "if HEIGHT \<le>s row s then 0 else row s"
  have r: "row (wrap_row s) = ?r" by (simp add: wrap_row_def)
  have lt: "?r <s HEIGHT" using row_at_store [of s] r by simp
  have idx: "cell_index (wrap_row s) = sint (?r * WIDTH + col s)"
    by (simp add: cell_index_def wrap_row_def)
  have inb: "sint (?r * WIDTH + col s) = sint ?r * 80 + sint (col s) \<and>
             0 \<le> sint ?r \<and> sint ?r < 25 \<and> 0 \<le> sint (col s) \<and> sint (col s) < 80"
    if "0 \<le>s row s"
    using store_index [OF that c] unfolding idx r .
  have st: "VGA (putc c s) = (VGA s)(sint (?r * WIDTH + col s) := cell_value s c)"
    if "c \<noteq> newline" for c
    using VGA_putc_glyph [OF that, of s] unfolding idx .
  show ?thesis
    unfolding Let_def
    using c lt inb st row_after_glyph by blast
qed

theorem cursor_invariant_witness:
  "run (Initialize # replicate 25 (Write_character newline)) (boot_console blank)
     = Some \<lparr>VGA = blank, row = 25, col = 0, color = 0x0F\<rparr> \<and>
   CHR ''A'' \<noteq> newline \<and>
   0 \<le>s row \<lparr>VGA = blank, row = 25, col = 0, color = 0x0F\<rparr> \<and>
   HEIGHT \<le>s row \<lparr>VGA = blank, row = 25, col = 0, color = 0x0F\<rparr> \<and>
   VGA (putc CHR ''A'' \<lparr>VGA = blank, row = 25, col = 0, color = 0x0F\<rparr>) = blank(0 := 0x0F41) \<and>
   row (putc CHR ''A'' \<lparr>VGA = blank, row = 25, col = 0, color = 0x0F\<rparr>) \<le>s HEIGHT \<and>
   col \<lparr>VGA = blank, row = 25, col = 0, color = 0x0F\<rparr> <s WIDTH"
proof -
  have r: "run (Initialize # replicate 25 (Write_character newline)) (boot_console blank)
     = Some \<lparr>VGA = blank, row = 25, col = 0, color = 0x0F\<rparr>"
    by (simp add: run_newlines vga_init_def boot_console_def)
  have n: "CHR ''A'' \<noteq> newline" by (simp add: newline_def)
  have h: "HEIGHT \<le>s row \<lparr>VGA = blank, row = 25, col = 0, color = 0x0F\<rparr>"
    by (simp add: HEIGHT_def word_sle_eq)
  have p: "0 \<le>s row \<lparr>VGA = blank, row = 25, col = 0, color = 0x0F\<rparr>"
    by (simp add: word_sle_eq)
  from cursor_invariant [OF r] n h p r show ?thesis
    by (simp add: Let_def cell_value_def)
qed

text \<open>
  Claim C4 fails at the greatest \<open>int\<close> row, which \<open>2^31 - 1\<close> newlines after \<open>vga_init\<close>
  reach: the newline written there takes the cursor to row \<open>-2^31\<close>, not to the next row.
  Line 10 increments \<open>row\<close> without any bound. Everywhere else a newline does move to column
  0 of the next row and changes no cell (\<open>putc_newline_next_row\<close>).
\<close>

theorem newline_row_overflow:
  "run (Initialize # replicate (2 ^ 31 - 1) (Write_character newline)) (boot_console blank)
     = Some \<lparr>VGA = blank, row = 2 ^ 31 - 1, col = 0, color = 0x0F\<rparr> \<and>
   sint (row \<lparr>VGA = blank, row = 2 ^ 31 - 1, col = 0, color = 0x0F\<rparr>) = 2147483647 \<and>
   putc newline \<lparr>VGA = blank, row = 2 ^ 31 - 1, col = 0, color = 0x0F\<rparr>
     = \<lparr>VGA = blank, row = - (2 ^ 31), col = 0, color = 0x0F\<rparr> \<and>
   sint (row (putc newline \<lparr>VGA = blank, row = 2 ^ 31 - 1, col = 0, color = 0x0F\<rparr>))
     = - 2147483648"
proof -
  have "run (Initialize # replicate (2 ^ 31 - 1) (Write_character newline)) (boot_console blank)
     = Some \<lparr>VGA = blank, row = 2 ^ 31 - 1, col = 0, color = 0x0F\<rparr>"
    by (simp add: run_newlines vga_init_def boot_console_def)
  moreover have "putc newline \<lparr>VGA = blank, row = 2 ^ 31 - 1, col = 0, color = 0x0F\<rparr>
     = \<lparr>VGA = blank, row = - (2 ^ 31), col = 0, color = 0x0F\<rparr>"
    by (simp add: putc_newline)
  ultimately show ?thesis by simp
qed

text \<open>
  Claim C1 fails once the row counter overflows: newlines increment \<open>row\<close> without any
  bound, and after \<open>2^31 + 25\<close> of them it is \<open>-2^31 + 25\<close>, which passes the test of line 11;
  the index of line 12 is then \<open>WIDTH * HEIGHT\<close>, one cell past the grid, and that cell is
  written. While the row is not negative every store is within the grid
  (\<open>store_in_bounds\<close>).
\<close>

theorem store_out_of_bounds:
  "run (Initialize # replicate (2 ^ 31 + 25) (Write_character newline)) (boot_console blank)
     = Some \<lparr>VGA = blank, row = - (2 ^ 31) + 25, col = 0, color = 0x0F\<rparr> \<and>
   cell_index (wrap_row \<lparr>VGA = blank, row = - (2 ^ 31) + 25, col = 0, color = 0x0F\<rparr>) = 2000 \<and>
   VGA (putc CHR ''A'' \<lparr>VGA = blank, row = - (2 ^ 31) + 25, col = 0, color = 0x0F\<rparr>) 2000
     = 0x0F41 \<and>
   blank 2000 = 0"
proof -
  have "run (Initialize # replicate (2 ^ 31 + 25) (Write_character newline)) (boot_console blank)
     = Some \<lparr>VGA = blank, row = - (2 ^ 31) + 25, col = 0, color = 0x0F\<rparr>"
    by (simp add: run_newlines vga_init_def boot_console_def)
  moreover have "cell_index (wrap_row \<lparr>VGA = blank, row = - (2 ^ 31) + 25, col = 0, color = 0x0F\<rparr>) = 2000"
    by (simp add: cell_index_def wrap_row_def HEIGHT_def WIDTH_def word_sle_eq)
  moreover have "VGA (putc CHR ''A'' \<lparr>VGA = blank, row = - (2 ^ 31) + 25, col = 0, color = 0x0F\<rparr>) 2000
     = 0x0F41"
    by (simp add: putc_glyph newline_def cell_value_def HEIGHT_def WIDTH_def word_sle_eq)
  ultimately show ?thesis by (simp add: blank_def)
qed

section \<open>Properties of the kernel entry\<close>

lemma kputs_literal:
  "CHR 0x00 \<notin> set cs \<Longrightarrow> kputs (literal cs) s = Some (putc newline (fold putc cs s))"
  by (simp add: kputs_def vga_write_string_literal newline_def)

lemma newline_literal: "vga_write_string (literal [newline]) s = Some (putc newline s)"
  by (simp add: vga_write_string_literal newline_def)

lemma kmain_numeral:
  "kmain g (numeral k) f = kmain_step g (kmain g (pred_numeral k) f)"
  by (simp add: numeral_eq_Suc)

lemma kmain_1: "kmain g 1 f = kmain_step g f"
  by simp

lemma step_Line9: "pc f = Line9 \<Longrightarrow> kmain_step g f = f\<lparr>vga := vga_init (vga f), pc := Line10\<rparr>"
  by (simp add: kmain_step_def)

lemma step_Line10:
  "pc f = Line10 \<Longrightarrow>
   kmain_step g f = f\<lparr>vga := fold putc (''FUSE kernel online'' @ [newline]) (vga f), pc := Line12\<rparr>"
  by (simp add: kmain_step_def on_console_def kputs_literal)

lemma step_Line12:
  "pc f = Line12 \<Longrightarrow> banner g (world f) = (b, w) \<Longrightarrow>
   kmain_step g f = f\<lparr>var_b := b, world := w, pc := Line13\<rparr>"
  by (simp add: kmain_step_def)

lemma step_Line13:
  "pc f = Line13 \<Longrightarrow> meaning g (world f) = (m, w) \<Longrightarrow>
   kmain_step g f = f\<lparr>var_m := m, world := w, pc := Line14\<rparr>"
  by (simp add: kmain_step_def)

lemma step_Line14:
  "pc f = Line14 \<Longrightarrow> add g 20 22 (world f) = (z, w) \<Longrightarrow>
   kmain_step g f = f\<lparr>var_z := z, world := w, pc := Line15\<rparr>"
  by (simp add: kmain_step_def)

lemma step_Line15:
  "pc f = Line15 \<Longrightarrow> max2 g 11 17 (world f) = (mx, w) \<Longrightarrow>
   kmain_step g f = f\<lparr>var_mx := mx, world := w, pc := Line16\<rparr>"
  by (simp add: kmain_step_def)

lemma step_Line16:
  "pc f = Line16 \<Longrightarrow> demo_expr g (world f) = (d, w) \<Longrightarrow>
   kmain_step g f = f\<lparr>var_d := d, world := w, pc := Line18\<rparr>"
  by (simp add: kmain_step_def)

lemma step_Line18:
  "pc f = Line18 \<Longrightarrow> var_b f = bs @ CHR 0x00 # rest \<Longrightarrow> CHR 0x00 \<notin> set bs \<Longrightarrow>
   kmain_step g f = f\<lparr>vga := fold putc (''banner: '' @ bs @ [newline]) (vga f), pc := Line19\<rparr>"
  by (simp add: kmain_step_def on_console_def vga_write_string_literal
      vga_write_string_terminated newline_literal)

lemma step_Line19:
  "pc f = Line19 \<Longrightarrow>
   kmain_step g f =
     f\<lparr>vga := fold putc (''meaning: '' @ emitted (var_m f) @ [newline]) (vga f), pc := Line20\<rparr>"
  by (simp add: kmain_step_def on_console_def vga_write_string_literal
      vga_write_int_emitted newline_literal)

lemma step_Line20:
  "pc f = Line20 \<Longrightarrow>
   kmain_step g f =
     f\<lparr>vga := fold putc (''add(20,22): '' @ emitted (var_z f) @ [newline]) (vga f), pc := Line21\<rparr>"
  by (simp add: kmain_step_def on_console_def vga_write_string_literal
      vga_write_int_emitted newline_literal)

lemma step_Line21:
  "pc f = Line21 \<Longrightarrow>
   kmain_step g f =
     f\<lparr>vga := fold putc (''max2(11,17): '' @ emitted (var_mx f) @ [newline]) (vga f), pc := Line22\<rparr>"
  by (simp add: kmain_step_def on_console_def vga_write_string_literal
      vga_write_int_emitted newline_literal)

lemma step_Line22:
  "pc f = Line22 \<Longrightarrow>
   kmain_step g f =
     f\<lparr>vga := fold putc (''demo_expr: '' @ emitted (var_d f) @ [newline]) (vga f), pc := Line23\<rparr>"
  by (simp add: kmain_step_def on_console_def vga_write_string_literal
      vga_write_int_emitted newline_literal)

lemma step_Line23: "pc f = Line23 \<Longrightarrow> kmain_step g f = f"
  by (simp add: kmain_step_def hlt_def)

lemma step_not_Returned: "pc f \<noteq> Returned \<Longrightarrow> pc (kmain_step g f) \<noteq> Returned"
  by (cases "pc f")
    (auto simp add: kmain_step_def on_console_def hlt_def split: option.splits prod.splits)

lemma kmain_not_Returned: "pc f \<noteq> Returned \<Longrightarrow> pc (kmain g n f) \<noteq> Returned"
  by (induction n) (simp_all add: step_not_Returned)

lemma kmain_idle: "pc (kmain g k f) = Line23 \<Longrightarrow> kmain g (k + n) f = kmain g k f"
  by (induction n) (simp_all add: step_Line23)

text \<open>
  Claim C9. Entered at line 9, \<open>kmain\<close> first calls \<open>vga_init\<close> (nothing else has happened
  then), writes the line \<open>FUSE kernel online\<close>, then calls \<open>banner\<close>, \<open>meaning\<close>, \<open>add(20, 22)\<close>,
  \<open>max2(11, 17)\<close> and \<open>demo_expr\<close> once each, in this order (the state of the generated code
  goes through \<open>w1, \<dots>, w5\<close>, the console is not touched meanwhile), then writes one labelled
  line for each result. After these twelve lines it is at line 23, the idle loop, and every
  further step leaves the frame as it is: there is no way out of line 23, and \<open>kmain\<close> never
  reaches \<open>Returned\<close>.
\<close>

theorem kmain_sequence:
  assumes entry: "pc f = Line9"
    and b: "banner g (world f) = (bs @ CHR 0x00 # rest, w1)" and nul: "CHR 0x00 \<notin> set bs"
    and m: "meaning g w1 = (m, w2)"
    and z: "add g 20 22 w2 = (z, w3)"
    and mx: "max2 g 11 17 w3 = (mx, w4)"
    and d: "demo_expr g w4 = (d, w5)"
  shows
    "kmain g 1 f = f\<lparr>vga := vga_init (vga f), pc := Line10\<rparr> \<and>
     kmain g 2 f =
       f\<lparr>vga := fold putc (''FUSE kernel online'' @ [newline]) (vga_init (vga f)),
         pc := Line12\<rparr> \<and>
     kmain g 3 f = (kmain g 2 f)\<lparr>var_b := bs @ CHR 0x00 # rest, world := w1, pc := Line13\<rparr> \<and>
     kmain g 4 f = (kmain g 3 f)\<lparr>var_m := m, world := w2, pc := Line14\<rparr> \<and>
     kmain g 5 f = (kmain g 4 f)\<lparr>var_z := z, world := w3, pc := Line15\<rparr> \<and>
     kmain g 6 f = (kmain g 5 f)\<lparr>var_mx := mx, world := w4, pc := Line16\<rparr> \<and>
     kmain g 7 f = (kmain g 6 f)\<lparr>var_d := d, world := w5, pc := Line18\<rparr> \<and>
     kmain g 8 f =
       (kmain g 7 f)\<lparr>vga := fold putc (''banner: '' @ bs @ [newline]) (vga (kmain g 7 f)),
         pc := Line19\<rparr> \<and>
     kmain g 9 f =
       (kmain g 8 f)\<lparr>vga := fold putc (''meaning: '' @ emitted m @ [newline]) (vga (kmain g 8 f)),
         pc := Line20\<rparr> \<and>
     kmain g 10 f =
       (kmain g 9 f)\<lparr>vga := fold putc (''add(20,22): '' @ emitted z @ [newline]) (vga (kmain g 9 f)),
         pc := Line21\<rparr> \<and>
     kmain g 11 f =
       (kmain g 10 f)\<lparr>vga := fold putc (''max2(11,17): '' @ emitted mx @ [newline]) (vga (kmain g 10 f)),
         pc := Line22\<rparr> \<and>
     kmain g 12 f =
       f\<lparr>pc := Line23,
         vga := fold putc (kmain_text bs m z mx d) (vga_init (vga f)),
         world := w5, var_b := bs @ CHR 0x00 # rest,
         var_m := m, var_z := z, var_mx := mx, var_d := d\<rparr> \<and>
     (\<forall>f'. pc f' = Line23 \<longrightarrow> kmain_step g f' = f') \<and>
     (\<forall>n. kmain g (12 + n) f = kmain g 12 f) \<and>
     (\<forall>n. pc (kmain g n f) \<noteq> Returned)"
proof -
  have k1: "kmain g 1 f = f\<lparr>vga := vga_init (vga f), pc := Line10\<rparr>"
    using entry by (simp add: step_Line9)
  have k2: "kmain g 2 f =
       f\<lparr>vga := fold putc (''FUSE kernel online'' @ [newline]) (vga_init (vga f)),
         pc := Line12\<rparr>"
    using k1 by (simp add: kmain_numeral step_Line10)
  have k3: "kmain g 3 f = (kmain g 2 f)\<lparr>var_b := bs @ CHR 0x00 # rest, world := w1, pc := Line13\<rparr>"
    using k2 b by (subst kmain_numeral) (simp add: step_Line12)
  have k4: "kmain g 4 f = (kmain g 3 f)\<lparr>var_m := m, world := w2, pc := Line14\<rparr>"
    using k3 m by (subst kmain_numeral) (simp add: step_Line13)
  have k5: "kmain g 5 f = (kmain g 4 f)\<lparr>var_z := z, world := w3, pc := Line15\<rparr>"
    using k4 z by (subst kmain_numeral) (simp add: step_Line14)
  have k6: "kmain g 6 f = (kmain g 5 f)\<lparr>var_mx := mx, world := w4, pc := Line16\<rparr>"
    using k5 mx by (subst kmain_numeral) (simp add: step_Line15)
  have k7: "kmain g 7 f = (kmain g 6 f)\<lparr>var_d := d, world := w5, pc := Line18\<rparr>"
    using k6 d by (subst kmain_numeral) (simp add: step_Line16)
  have b7: "var_b (kmain g 7 f) = bs @ CHR 0x00 # rest"
    by (simp add: k7 k6 k5 k4 k3)
  have k8: "kmain g 8 f =
       (kmain g 7 f)\<lparr>vga := fold putc (''banner: '' @ bs @ [newline]) (vga (kmain g 7 f)),
         pc := Line19\<rparr>"
  proof -
    have "pc (kmain g 7 f) = Line18" by (simp add: k7)
    from step_Line18 [OF this b7 nul] show ?thesis
      by (subst kmain_numeral) simp
  qed
  have k9: "kmain g 9 f =
       (kmain g 8 f)\<lparr>vga := fold putc (''meaning: '' @ emitted m @ [newline]) (vga (kmain g 8 f)),
         pc := Line20\<rparr>"
  proof -
    have "pc (kmain g 8 f) = Line19" "var_m (kmain g 8 f) = m"
      by (simp_all add: k8 k7 k6 k5 k4)
    with step_Line19 [of "kmain g 8 f" g] show ?thesis
      by (subst kmain_numeral) simp
  qed
  have k10: "kmain g 10 f =
       (kmain g 9 f)\<lparr>vga := fold putc (''add(20,22): '' @ emitted z @ [newline]) (vga (kmain g 9 f)),
         pc := Line21\<rparr>"
  proof -
    have "pc (kmain g 9 f) = Line20" "var_z (kmain g 9 f) = z"
      by (simp_all add: k9 k8 k7 k6 k5)
    with step_Line20 [of "kmain g 9 f" g] show ?thesis
      by (subst kmain_numeral) simp
  qed
  have k11: "kmain g 11 f =
       (kmain g 10 f)\<lparr>vga := fold putc (''max2(11,17): '' @ emitted mx @ [newline]) (vga (kmain g 10 f)),
         pc := Line22\<rparr>"
  proof -
    have "pc (kmain g 10 f) = Line21" "var_mx (kmain g 10 f) = mx"
      by (simp_all add: k10 k9 k8 k7 k6)
    with step_Line21 [of "kmain g 10 f" g] show ?thesis
      by (subst kmain_numeral) simp
  qed
  have k12': "kmain g 12 f =
       (kmain g 11 f)\<lparr>vga := fold putc (''demo_expr: '' @ emitted d @ [newline]) (vga (kmain g 11 f)),
         pc := Line23\<rparr>"
  proof -
    have "pc (kmain g 11 f) = Line22" "var_d (kmain g 11 f) = d"
      by (simp_all add: k11 k10 k9 k8 k7)
    with step_Line22 [of "kmain g 11 f" g] show ?thesis
      by (subst kmain_numeral) simp
  qed
  have k12: "kmain g 12 f =
       f\<lparr>pc := Line23,
         vga := fold putc (kmain_text bs m z mx d) (vga_init (vga f)),
         world := w5, var_b := bs @ CHR 0x00 # rest,
         var_m := m, var_z := z, var_mx := mx, var_d := d\<rparr>"
    unfolding k12' k11 k10 k9 k8 k7 k6 k5 k4 k3 k2
    by (simp add: kmain_text_def)
  have idle: "kmain g (12 + n) f = kmain g 12 f" for n
    by (rule kmain_idle) (simp add: k12)
  have never: "pc (kmain g n f) \<noteq> Returned" for n
    by (rule kmain_not_Returned) (simp add: entry)
  have loop: "kmain_step g f' = f'" if "pc f' = Line23" for f' :: "'a frame"
    using that by (rule step_Line23)
  from k1 k2 k3 k4 k5 k6 k7 k8 k9 k10 k11 k12 loop idle never show ?thesis
    by blast
qed

lemma emitted_42: "emitted 42 = ''42''"
  by (simp add: emitted_def word_sless_alt rdigits.simps digit_char_values)

lemma emitted_17: "emitted 17 = ''17''"
  using digit_char_values(2)
  by (simp add: emitted_def word_sless_alt rdigits.simps digit_char_values)

lemma emitted_m7: "emitted (- 7) = ''-7''"
  by (simp add: emitted_def word_sless_alt rdigits.simps digit_char_values)

lemma kmain_text_example:
  "kmain_text ''FUSE'' 42 42 17 (- 7) =
     ''FUSE kernel online'' @ [newline] @ ''banner: FUSE'' @ [newline] @
     ''meaning: 42'' @ [newline] @ ''add(20,22): 42'' @ [newline] @
     ''max2(11,17): 17'' @ [newline] @ ''demo_expr: -7'' @ [newline]"
  by (simp add: kmain_text_def emitted_42 emitted_17 emitted_m7)

theorem kmain_sequence_witness:
  "pc (entry (boot_console blank) []) = Line9 \<and>
   banner logging (world (entry (boot_console blank) [])) = (''FUSE'' @ CHR 0x00 # [], [Banner]) \<and>
   CHR 0x00 \<notin> set ''FUSE'' \<and>
   meaning logging [Banner] = (42, [Banner, Meaning]) \<and>
   add logging 20 22 [Banner, Meaning] = (42, [Banner, Meaning, Add 20 22]) \<and>
   max2 logging 11 17 [Banner, Meaning, Add 20 22]
     = (17, [Banner, Meaning, Add 20 22, Max2 11 17]) \<and>
   demo_expr logging [Banner, Meaning, Add 20 22, Max2 11 17]
     = (- 7, [Banner, Meaning, Add 20 22, Max2 11 17, Demo_expr]) \<and>
   kmain logging 1 (entry (boot_console blank) [])
     = \<lparr>pc = Line10, vga = vga_init (boot_console blank), world = [], var_b = [],
         var_m = 0, var_z = 0, var_mx = 0, var_d = 0\<rparr> \<and>
   kmain logging 12 (entry (boot_console blank) [])
     = \<lparr>pc = Line23,
         vga = fold putc (kmain_text ''FUSE'' 42 42 17 (- 7)) (vga_init (boot_console blank)),
         world = [Banner, Meaning, Add 20 22, Max2 11 17, Demo_expr],
         var_b = ''FUSE'' @ [CHR 0x00], var_m = 42, var_z = 42, var_mx = 17, var_d = - 7\<rparr> \<and>
   kmain logging (12 + 1000) (entry (boot_console blank) [])
     = kmain logging 12 (entry (boot_console blank) []) \<and>
   pc (kmain logging 1000 (entry (boot_console blank) [])) \<noteq> Returned"
proof -
  have 0: "pc (entry (boot_console blank) []) = Line9"
    by (simp add: entry_def)
  have 1: "banner logging (world (entry (boot_console blank) [])) = (''FUSE'' @ CHR 0x00 # [], [Banner])"
    by (simp add: logging_def literal_def entry_def)
  have 2: "CHR 0x00 \<notin> set ''FUSE''" by simp
  have 3: "meaning logging [Banner] = (42, [Banner, Meaning])"
    by (simp add: logging_def)
  have 4: "add logging 20 22 [Banner, Meaning] = (42, [Banner, Meaning, Add 20 22])"
    by (simp add: logging_def)
  have 5: "max2 logging 11 17 [Banner, Meaning, Add 20 22]
     = (17, [Banner, Meaning, Add 20 22, Max2 11 17])"
    by (simp add: logging_def word_sless_alt)
  have 6: "demo_expr logging [Banner, Meaning, Add 20 22, Max2 11 17]
     = (- 7, [Banner, Meaning, Add 20 22, Max2 11 17, Demo_expr])"
    by (simp add: logging_def)
  note k = kmain_sequence [OF 0 1 2 3 4 5 6]
  from k have a: "kmain logging 1 (entry (boot_console blank) [])
     = \<lparr>pc = Line10, vga = vga_init (boot_console blank), world = [], var_b = [],
         var_m = 0, var_z = 0, var_mx = 0, var_d = 0\<rparr>"
    by (simp add: entry_def)
  from k have b: "kmain logging 12 (entry (boot_console blank) [])
     = \<lparr>pc = Line23,
         vga = fold putc (kmain_text ''FUSE'' 42 42 17 (- 7)) (vga_init (boot_console blank)),
         world = [Banner, Meaning, Add 20 22, Max2 11 17, Demo_expr],
         var_b = ''FUSE'' @ [CHR 0x00], var_m = 42, var_z = 42, var_mx = 17, var_d = - 7\<rparr>"
    by (simp add: entry_def)
  from k have c: "kmain logging (12 + 1000) (entry (boot_console blank) [])
     = kmain logging 12 (entry (boot_console blank) [])"
    by blast
  from k have d: "pc (kmain logging 1000 (entry (boot_console blank) [])) \<noteq> Returned"
    by blast
  from 0 1 2 3 4 5 6 a b c d show ?thesis by blast
qed

end
